theory Spec2Isabelle
  imports Main "HOL-Library.Word"
begin

section \<open>The OpenMP wrapper of LightGBM (\<^verbatim>\<open>include/LightGBM/utils/openmp_wrapper.h\<close>)\<close>

text \<open>
  The header has two branches. With \<^verbatim>\<open>_OPENMP\<close> defined it provides the thread-count
  resolver \<^verbatim>\<open>OMP_SET_NUM_THREADS\<close> with its two cached sources and the class
  \<^verbatim>\<open>ThreadExceptionHelper\<close>; without it, it provides single-thread stand-ins of the
  same names. Functions of the second branch carry the suffix \<open>_noomp\<close> here, since
  both branches define the same identifiers.
\<close>

subsection \<open>C library: \<^verbatim>\<open>strtol\<close> and the narrowing to \<^verbatim>\<open>int32_t\<close>\<close>

text \<open>
  \<^verbatim>\<open>strtol(val, &end, 10)\<close> belongs to the C library, not to the repository. It is
  modelled after ISO C 7.22.1.4: white space is skipped, one optional sign is read, then
  the longest run of decimal digits; with no digit the result is 0; a value outside the
  range of \<^verbatim>\<open>long\<close> is replaced by \<^verbatim>\<open>LONG_MAX\<close> or \<^verbatim>\<open>LONG_MIN\<close>. The
  width of \<^verbatim>\<open>long\<close> is the parameter \<open>long_bits\<close>: 64 on LP64 platforms (Linux,
  macOS), 32 on LLP64 (Windows).
\<close>

definition isspace :: "char \<Rightarrow> bool" where
  "isspace c = (of_char c = (32::nat) \<or> (9::nat) \<le> of_char c \<and> of_char c \<le> (13::nat))"

definition isdigit :: "char \<Rightarrow> bool" where
  "isdigit c = ((48::nat) \<le> of_char c \<and> of_char c \<le> (57::nat))"

definition digit_value :: "char \<Rightarrow> int" where
  "digit_value c = int (of_char c) - 48"

definition decimal_value :: "string \<Rightarrow> int" where
  "decimal_value ds = foldl (\<lambda>acc c. 10 * acc + digit_value c) 0 ds"

definition LONG_MAX :: "nat \<Rightarrow> int" where
  "LONG_MAX long_bits = 2 ^ (long_bits - 1) - 1"

definition LONG_MIN :: "nat \<Rightarrow> int" where
  "LONG_MIN long_bits = - (2 ^ (long_bits - 1))"

fun strtol_sign :: "string \<Rightarrow> bool \<times> string" where
  "strtol_sign [] = (False, [])"
| "strtol_sign (c # cs) =
     (if c = CHR ''-'' then (True, cs)
      else if c = CHR ''+'' then (False, cs)
      else (False, c # cs))"

definition strtol :: "nat \<Rightarrow> string \<Rightarrow> int" where
  "strtol long_bits nptr =
     (let (negative, rest) = strtol_sign (dropWhile isspace nptr);
          magnitude = decimal_value (takeWhile isdigit rest)
      in if negative then max (LONG_MIN long_bits) (- magnitude)
         else min (LONG_MAX long_bits) magnitude)"

text \<open>
  \<^verbatim>\<open>int32_t ans = strtol(...)\<close> converts a \<^verbatim>\<open>long\<close> to \<^verbatim>\<open>int32_t\<close>: the value is
  reduced modulo \<open>2^32\<close> and read as two's complement.
\<close>

definition to_int32 :: "int \<Rightarrow> int" where
  "to_int32 v = sint (word_of_int v :: 32 word)"

subsection \<open>The thread-count policy (\<^verbatim>\<open>_OPENMP\<close> branch)\<close>

text \<open>
  What the outside answers during one call: the value of the environment variable
  \<^verbatim>\<open>LGBM_DEFAULT_NUM_THREADS\<close> as \<^verbatim>\<open>std::getenv\<close> returns it (\<open>None\<close> for a null
  pointer), and the size of the team that the OpenMP runtime forms for a parallel region
  with no \<^verbatim>\<open>num_threads\<close> clause, which the master thread reads with
  \<^verbatim>\<open>omp_get_num_threads()\<close>.
\<close>

record omp_world =
  getenv_LGBM_DEFAULT_NUM_THREADS :: "string option"
  omp_team_size :: int

text \<open>
  The state of the process that the resolver touches: its two function-local statics
  (\<open>None\<close> until the first call has initialised them), the thread count last handed to
  \<^verbatim>\<open>omp_set_num_threads\<close>, and the number of \<^verbatim>\<open>std::getenv\<close> calls made so far.
\<close>

record process =
  default_omp_num_threads :: "int option"
  lgbm_default_num_threads :: "int option"
  nthreads_var :: int
  getenv_calls :: nat

definition process_start :: "int \<Rightarrow> process" where
  "process_start n0 =
     \<lparr>default_omp_num_threads = None, lgbm_default_num_threads = None,
      nthreads_var = n0, getenv_calls = 0\<rparr>"

definition OMP_NUM_THREADS :: "omp_world \<Rightarrow> int" where
  "OMP_NUM_THREADS w = (let ret = (1::int); ret = omp_team_size w in ret)"

definition LGBM_DEFAULT_NUM_THREADS :: "nat \<Rightarrow> omp_world \<Rightarrow> int" where
  "LGBM_DEFAULT_NUM_THREADS long_bits w =
     (case getenv_LGBM_DEFAULT_NUM_THREADS w of
        None \<Rightarrow> - 1
      | Some val \<Rightarrow>
          (let ans = to_int32 (strtol long_bits val)
           in if ans > 0 then ans else - 1))"

definition omp_set_num_threads :: "int \<Rightarrow> process \<Rightarrow> process" where
  "omp_set_num_threads n s = s\<lparr>nthreads_var := n\<rparr>"

text \<open>The initialisers of the two statics run once, in the first call that reaches them.\<close>

definition static_default_omp_num_threads :: "omp_world \<Rightarrow> process \<Rightarrow> int \<times> process" where
  "static_default_omp_num_threads w s =
     (case default_omp_num_threads s of
        Some v \<Rightarrow> (v, s)
      | None \<Rightarrow> (let v = OMP_NUM_THREADS w
                 in (v, s\<lparr>default_omp_num_threads := Some v\<rparr>)))"

definition static_lgbm_default_num_threads ::
  "nat \<Rightarrow> omp_world \<Rightarrow> process \<Rightarrow> int \<times> process" where
  "static_lgbm_default_num_threads long_bits w s =
     (case lgbm_default_num_threads s of
        Some v \<Rightarrow> (v, s)
      | None \<Rightarrow> (let v = LGBM_DEFAULT_NUM_THREADS long_bits w
                 in (v, s\<lparr>lgbm_default_num_threads := Some v,
                           getenv_calls := Suc (getenv_calls s)\<rparr>)))"

definition OMP_SET_NUM_THREADS :: "nat \<Rightarrow> omp_world \<Rightarrow> int \<Rightarrow> process \<Rightarrow> process" where
  "OMP_SET_NUM_THREADS long_bits w num_threads s =
     (let (default_omp, s1) = static_default_omp_num_threads w s;
          (lgbm_default, s2) = static_lgbm_default_num_threads long_bits w s1
      in if lgbm_default > 0 then omp_set_num_threads lgbm_default s2
         else if num_threads > 0 then omp_set_num_threads num_threads s2
         else omp_set_num_threads default_omp s2)"

text \<open>
  The values of the two statics that a call works with: the cached one, or the one the
  call computes when it is the first.
\<close>

definition override_in_force :: "nat \<Rightarrow> omp_world \<Rightarrow> process \<Rightarrow> int" where
  "override_in_force long_bits w s =
     (case lgbm_default_num_threads s of
        Some v \<Rightarrow> v
      | None \<Rightarrow> LGBM_DEFAULT_NUM_THREADS long_bits w)"

definition default_in_force :: "omp_world \<Rightarrow> process \<Rightarrow> int" where
  "default_in_force w s =
     (case default_omp_num_threads s of
        Some v \<Rightarrow> v
      | None \<Rightarrow> OMP_NUM_THREADS w)"

text \<open>
  A run of the process: calls of the resolver one after the other, each with its
  requested count and with what the outside answers at that moment. The result lists
  the state after each call.
\<close>

fun run_calls :: "nat \<Rightarrow> (omp_world \<times> int) list \<Rightarrow> process \<Rightarrow> process list" where
  "run_calls long_bits [] s = []"
| "run_calls long_bits ((w, num_threads) # calls) s =
     (let s' = OMP_SET_NUM_THREADS long_bits w num_threads s
      in s' # run_calls long_bits calls s')"

subsection \<open>The exception barrier \<^verbatim>\<open>ThreadExceptionHelper\<close>\<close>

text \<open>
  A \<^verbatim>\<open>std::exception_ptr\<close> is null or refers to one exception object: an option over
  the type \<open>'e\<close> of exception objects. A call returns, or leaves by a raised
  exception, or ends the process: \<open>Terminated e\<close> says that \<^verbatim>\<open>std::terminate\<close> was
  called while \<open>e\<close> was being thrown, so that no caller receives anything.
\<close>

datatype 'e outcome = Returned | Raised 'e | Terminated 'e

text \<open>
  No exception leaves a function that is \<^verbatim>\<open>noexcept\<close>: when one reaches its boundary,
  \<^verbatim>\<open>std::terminate\<close> is called.
\<close>

definition noexcept_boundary :: "'e outcome \<Rightarrow> 'e outcome" where
  "noexcept_boundary r =
     (case r of
        Returned \<Rightarrow> Returned
      | Raised e \<Rightarrow> Terminated e
      | Terminated e \<Rightarrow> Terminated e)"

text \<open>
  The members \<^verbatim>\<open>ex_ptr_\<close> and \<^verbatim>\<open>lock_\<close> are the fields \<open>ex_ptr\<close> and \<open>lock\<close> (a name
  cannot end in an underscore here); \<open>lock\<close> is \<open>True\<close> while a thread holds the mutex.
\<close>

record 'e ThreadExceptionHelper =
  ex_ptr :: "'e option"
  lock :: bool

definition ThreadExceptionHelper_new :: "'e ThreadExceptionHelper" where
  "ThreadExceptionHelper_new = \<lparr>ex_ptr = None, lock = False\<rparr>"

text \<open>
  \<^verbatim>\<open>ReThrow\<close> reads \<open>ex_ptr\<close> and writes nothing; the helper is returned beside the
  outcome to make that visible.
\<close>

definition ReThrow :: "'e ThreadExceptionHelper \<Rightarrow> 'e outcome \<times> 'e ThreadExceptionHelper" where
  "ReThrow h =
     (case ex_ptr h of
        Some e \<Rightarrow> (Raised e, h)
      | None \<Rightarrow> (Returned, h))"

text \<open>
  The destructor's body is the call \<^verbatim>\<open>ReThrow()\<close>. The destructor is declared
  without an exception specification and the destructors of its two members do not
  throw, so it is implicitly \<^verbatim>\<open>noexcept\<close> (C++11 and later, which
  \<^verbatim>\<open>std::exception_ptr\<close> requires): the exception that \<^verbatim>\<open>ReThrow()\<close> raises
  inside it does not leave it.
\<close>

definition ThreadExceptionHelper_delete :: "'e ThreadExceptionHelper \<Rightarrow> 'e outcome" where
  "ThreadExceptionHelper_delete h = noexcept_boundary (fst (ReThrow h))"

text \<open>
  \<^verbatim>\<open>OMP_INIT_EX()\<close> declares the helper as a local object and \<^verbatim>\<open>OMP_THROW_EX()\<close>
  is \<^verbatim>\<open>omp_except_helper.ReThrow()\<close>. At the end of the enclosing block the helper
  is destroyed: after a normal end of the block, or while the stack is unwound for an
  exception raised in the block, where the exception goes on to the caller only if the
  destructor returns.
\<close>

definition OMP_THROW_EX :: "'e ThreadExceptionHelper \<Rightarrow> 'e outcome \<times> 'e ThreadExceptionHelper" where
  "OMP_THROW_EX omp_except_helper = ReThrow omp_except_helper"

definition scope_exit :: "'e outcome \<times> 'e ThreadExceptionHelper \<Rightarrow> 'e outcome" where
  "scope_exit r =
     (case r of
        (Returned, h) \<Rightarrow> ThreadExceptionHelper_delete h
      | (Raised e, h) \<Rightarrow>
          (case ThreadExceptionHelper_delete h of
             Returned \<Rightarrow> Raised e
           | Raised e' \<Rightarrow> Terminated e'
           | Terminated e' \<Rightarrow> Terminated e')
      | (Terminated e, h) \<Rightarrow> Terminated e)"

text \<open>
  \<^verbatim>\<open>CaptureException\<close> as one uninterrupted call. The argument is what
  \<^verbatim>\<open>std::current_exception()\<close> yields in the calling thread: the exception being
  handled, or null outside a handler. The result is \<open>None\<close> when the call blocks on a
  mutex that is held and that nobody releases.
\<close>

definition CaptureException ::
  "'e option \<Rightarrow> 'e ThreadExceptionHelper \<Rightarrow> 'e ThreadExceptionHelper option" where
  "CaptureException current_exception h =
     (if ex_ptr h \<noteq> None then Some h
      else if lock h then None
      else let g = h\<lparr>lock := True\<rparr>
           in if ex_ptr g \<noteq> None then Some (g\<lparr>lock := False\<rparr>)
              else Some (g\<lparr>ex_ptr := current_exception, lock := False\<rparr>))"

text \<open>A sequence of calls, one after the other, each with its own in-flight exception.\<close>

fun capture_all ::
  "'e option list \<Rightarrow> 'e ThreadExceptionHelper \<Rightarrow> 'e ThreadExceptionHelper option" where
  "capture_all [] h = Some h"
| "capture_all (c # cs) h =
     (case CaptureException c h of
        None \<Rightarrow> None
      | Some h' \<Rightarrow> capture_all cs h')"

text \<open>The first non-null exception of a sequence of in-flight exceptions.\<close>

fun first_signal :: "'e option list \<Rightarrow> 'e option" where
  "first_signal [] = None"
| "first_signal (None # cs) = first_signal cs"
| "first_signal (Some e # cs) = Some e"

subsection \<open>Callers running concurrently\<close>

text \<open>
  \<^verbatim>\<open>CaptureException\<close> in steps, so that calls of several worker threads interleave.
  A thread carries its in-flight exception and the place it has reached:
  the unlocked test, the acquisition of the mutex, the test under the mutex, the
  assignment, the release at the end of the guard's scope, and the return.
\<close>

datatype place = Test_unlocked | Acquire | Test_locked | Assign | Release | Finished

fun capture_step ::
  "'e option \<Rightarrow> place \<Rightarrow> 'e ThreadExceptionHelper \<Rightarrow> (place \<times> 'e ThreadExceptionHelper) option" where
  "capture_step cur Test_unlocked h =
     (if ex_ptr h \<noteq> None then Some (Finished, h) else Some (Acquire, h))"
| "capture_step cur Acquire h =
     (if lock h then None else Some (Test_locked, h\<lparr>lock := True\<rparr>))"
| "capture_step cur Test_locked h =
     (if ex_ptr h \<noteq> None then Some (Release, h) else Some (Assign, h))"
| "capture_step cur Assign h = Some (Release, h\<lparr>ex_ptr := cur\<rparr>)"
| "capture_step cur Release h = Some (Finished, h\<lparr>lock := False\<rparr>)"
| "capture_step cur Finished h = None"

text \<open>
  A configuration: the workers (in-flight exception and place of each) and the shared
  helper. One step moves one worker that can move.
\<close>

type_synonym 'e workers = "('e option \<times> place) list"

inductive interleave ::
  "'e workers \<times> 'e ThreadExceptionHelper \<Rightarrow> 'e workers \<times> 'e ThreadExceptionHelper \<Rightarrow> bool" where
  move: "i < length ws \<Longrightarrow> ws ! i = (cur, p) \<Longrightarrow> capture_step cur p h = Some (p', h')
         \<Longrightarrow> interleave (ws, h) (ws[i := (cur, p')], h')"

definition region_start :: "'e option list \<Rightarrow> 'e workers \<times> 'e ThreadExceptionHelper" where
  "region_start curs = (map (\<lambda>c. (c, Test_unlocked)) curs, ThreadExceptionHelper_new)"

subsection \<open>The sequential stand-ins (branch without \<^verbatim>\<open>_OPENMP\<close>)\<close>

definition omp_set_num_threads_noomp :: "int \<Rightarrow> 's \<Rightarrow> 's" where
  "omp_set_num_threads_noomp n s = s"

definition OMP_SET_NUM_THREADS_noomp :: "int \<Rightarrow> 's \<Rightarrow> 's" where
  "OMP_SET_NUM_THREADS_noomp n s = s"

definition omp_get_num_threads_noomp :: int where
  "omp_get_num_threads_noomp = 1"

definition omp_get_max_threads_noomp :: int where
  "omp_get_max_threads_noomp = 1"

definition omp_get_thread_num_noomp :: int where
  "omp_get_thread_num_noomp = 0"

definition OMP_NUM_THREADS_noomp :: int where
  "OMP_NUM_THREADS_noomp = 1"

text \<open>
  A statement maps a state to an outcome and a state. The four macros of this branch
  expand to no tokens; a use such as \<^verbatim>\<open>OMP_THROW_EX();\<close> is then the empty statement.
\<close>

type_synonym ('e, 's) stmt = "'s \<Rightarrow> 'e outcome \<times> 's"

definition empty_stmt :: "('e, 's) stmt" where
  "empty_stmt s = (Returned, s)"

definition seq_stmt :: "('e, 's) stmt \<Rightarrow> ('e, 's) stmt \<Rightarrow> ('e, 's) stmt" where
  "seq_stmt a b s =
     (case a s of
        (Returned, s') \<Rightarrow> b s'
      | (Raised e, s') \<Rightarrow> (Raised e, s')
      | (Terminated e, s') \<Rightarrow> (Terminated e, s'))"

definition OMP_INIT_EX_noomp :: "('e, 's) stmt" where
  "OMP_INIT_EX_noomp = empty_stmt"

definition OMP_LOOP_EX_BEGIN_noomp :: "('e, 's) stmt" where
  "OMP_LOOP_EX_BEGIN_noomp = empty_stmt"

definition OMP_LOOP_EX_END_noomp :: "('e, 's) stmt" where
  "OMP_LOOP_EX_END_noomp = empty_stmt"

definition OMP_THROW_EX_noomp :: "('e, 's) stmt" where
  "OMP_THROW_EX_noomp = empty_stmt"

subsection \<open>Notions used in the proofs\<close>

text \<open>
  One worker running its call alone, for at most \<open>fuel\<close> steps; \<open>None\<close> when it is
  blocked or out of fuel.
\<close>

fun capture_alone ::
  "nat \<Rightarrow> 'e option \<Rightarrow> place \<Rightarrow> 'e ThreadExceptionHelper \<Rightarrow> 'e ThreadExceptionHelper option" where
  "capture_alone fuel cur Finished h = Some h"
| "capture_alone 0 cur p h = None"
| "capture_alone (Suc fuel) cur p h =
     (case capture_step cur p h of
        None \<Rightarrow> None
      | Some (p', h') \<Rightarrow> capture_alone fuel cur p' h')"

text \<open>The places at which a worker holds the mutex.\<close>

definition critical :: "place \<Rightarrow> bool" where
  "critical p = (p = Test_locked \<or> p = Assign \<or> p = Release)"

definition workers_at :: "(place \<Rightarrow> bool) \<Rightarrow> 'e workers \<Rightarrow> nat set" where
  "workers_at P ws = {k. k < length ws \<and> P (snd (ws ! k))}"

text \<open>
  The invariant of the interleaved runs: the mutex is held exactly when one worker is at
  a critical place, no two workers are, and a worker about to assign sees an empty slot.
\<close>

definition mutex_inv :: "'e workers \<times> 'e ThreadExceptionHelper \<Rightarrow> bool" where
  "mutex_inv c =
     (case c of (ws, h) \<Rightarrow>
        (if lock h then \<exists>k. workers_at critical ws = {k} else workers_at critical ws = {})
      \<and> (workers_at (\<lambda>p. p = Assign) ws \<noteq> {} \<longrightarrow> ex_ptr h = None))"

text \<open>
  What must not be lost: a worker that has returned, or has only the release left, and
  had a signal in flight leaves a slot that is not empty; and a signal in the slot is
  the signal of one of the workers.
\<close>

definition signal_kept :: "'e workers \<times> 'e ThreadExceptionHelper \<Rightarrow> bool" where
  "signal_kept c =
     (case c of (ws, h) \<Rightarrow>
        (\<forall>i < length ws. (snd (ws ! i) = Release \<or> snd (ws ! i) = Finished)
             \<and> fst (ws ! i) \<noteq> None \<longrightarrow> ex_ptr h \<noteq> None)
      \<and> (\<forall>e. ex_ptr h = Some e \<longrightarrow> (\<exists>i < length ws. fst (ws ! i) = Some e)))"

text \<open>The steps a worker has left at most, and their sum over the workers.\<close>

fun steps_left :: "place \<Rightarrow> nat" where
  "steps_left Test_unlocked = 5"
| "steps_left Acquire = 4"
| "steps_left Test_locked = 3"
| "steps_left Assign = 2"
| "steps_left Release = 1"
| "steps_left Finished = 0"

definition work_left :: "'e workers \<times> 'e ThreadExceptionHelper \<Rightarrow> nat" where
  "work_left c = sum_list (map (\<lambda>w. steps_left (snd w)) (fst c))"

section \<open>The thread-count policy\<close>

subsection \<open>One call\<close>

lemma OMP_SET_NUM_THREADS_applies:
  "nthreads_var (OMP_SET_NUM_THREADS lb w n s) =
     (if override_in_force lb w s > 0 then override_in_force lb w s
      else if n > 0 then n else default_in_force w s)"
  by (simp add: OMP_SET_NUM_THREADS_def static_default_omp_num_threads_def
      static_lgbm_default_num_threads_def omp_set_num_threads_def override_in_force_def
      default_in_force_def Let_def split: option.splits)

lemma OMP_SET_NUM_THREADS_caches:
  "lgbm_default_num_threads (OMP_SET_NUM_THREADS lb w n s) = Some (override_in_force lb w s)"
  "default_omp_num_threads (OMP_SET_NUM_THREADS lb w n s) = Some (default_in_force w s)"
  by (simp_all add: OMP_SET_NUM_THREADS_def static_default_omp_num_threads_def
      static_lgbm_default_num_threads_def omp_set_num_threads_def override_in_force_def
      default_in_force_def Let_def split: option.splits)

lemma OMP_SET_NUM_THREADS_getenv_calls:
  "getenv_calls (OMP_SET_NUM_THREADS lb w n s) =
     (case lgbm_default_num_threads s of
        None \<Rightarrow> Suc (getenv_calls s)
      | Some v \<Rightarrow> getenv_calls s)"
  by (simp add: OMP_SET_NUM_THREADS_def static_default_omp_num_threads_def
      static_lgbm_default_num_threads_def omp_set_num_threads_def Let_def split: option.splits)

text \<open>
  Claim C1. Every call of \<^verbatim>\<open>OMP_SET_NUM_THREADS(requested)\<close> hands to
  \<^verbatim>\<open>omp_set_num_threads\<close> the cached environment override when that is positive,
  whatever was requested; otherwise the requested count when that is positive; otherwise
  the cached default of the OpenMP runtime. After the call both values are cached.
\<close>

theorem OMP_SET_NUM_THREADS_priority:
  "nthreads_var (OMP_SET_NUM_THREADS lb w requested s) =
     (if override_in_force lb w s > 0 then override_in_force lb w s
      else if requested > 0 then requested
      else default_in_force w s)
   \<and> lgbm_default_num_threads (OMP_SET_NUM_THREADS lb w requested s)
       = Some (override_in_force lb w s)
   \<and> default_omp_num_threads (OMP_SET_NUM_THREADS lb w requested s)
       = Some (default_in_force w s)"
  by (simp add: OMP_SET_NUM_THREADS_applies OMP_SET_NUM_THREADS_caches)

subsection \<open>Runs of calls\<close>

lemma length_run_calls: "length (run_calls lb calls s) = length calls"
  by (induction calls arbitrary: s) (auto simp: Let_def)

lemma default_in_force_ge1:
  assumes "1 \<le> omp_team_size w" and "\<forall>d. default_omp_num_threads s = Some d \<longrightarrow> 1 \<le> d"
  shows "1 \<le> default_in_force w s"
  using assms by (simp add: default_in_force_def OMP_NUM_THREADS_def split: option.splits)

lemma OMP_SET_NUM_THREADS_ge1:
  assumes "1 \<le> omp_team_size w" and "\<forall>d. default_omp_num_threads s = Some d \<longrightarrow> 1 \<le> d"
  shows "1 \<le> nthreads_var (OMP_SET_NUM_THREADS lb w n s)"
  using default_in_force_ge1 [OF assms] by (simp add: OMP_SET_NUM_THREADS_applies)

lemma run_calls_ge1:
  assumes "\<forall>(w, n) \<in> set calls. 1 \<le> omp_team_size w"
    and "\<forall>d. default_omp_num_threads s = Some d \<longrightarrow> 1 \<le> d"
  shows "\<forall>s' \<in> set (run_calls lb calls s). 1 \<le> nthreads_var s'"
  using assms
proof (induction calls arbitrary: s)
  case Nil
  then show ?case by simp
next
  case (Cons c calls)
  obtain w n where c: "c = (w, n)" by (cases c)
  let ?s' = "OMP_SET_NUM_THREADS lb w n s"
  from Cons.prems c have team: "1 \<le> omp_team_size w" by simp
  have here: "1 \<le> nthreads_var ?s'"
    using OMP_SET_NUM_THREADS_ge1 [OF team Cons.prems(2)] .
  have cached: "\<forall>d. default_omp_num_threads ?s' = Some d \<longrightarrow> 1 \<le> d"
    using default_in_force_ge1 [OF team Cons.prems(2)]
    by (simp add: OMP_SET_NUM_THREADS_caches)
  from Cons.prems c have rest: "\<forall>(w, n) \<in> set calls. 1 \<le> omp_team_size w" by simp
  from Cons.IH [OF rest cached] here c show ?case by (simp add: Let_def)
qed

text \<open>
  Claim C8. The resolver has no failing path: a run of calls from the start of the
  process yields a state for each call, whatever integers are requested (zero and
  negative ones too), and the count applied by each call is at least 1, provided the
  OpenMP runtime reports a team of at least one thread for an unconfigured region.
\<close>

theorem resolved_count_positive:
  assumes "\<forall>(w, requested) \<in> set calls. 1 \<le> omp_team_size w"
  shows "length (run_calls lb calls (process_start n0)) = length calls
       \<and> (\<forall>s' \<in> set (run_calls lb calls (process_start n0)). 1 \<le> nthreads_var s')"
  using run_calls_ge1 [OF assms, of "process_start n0" lb]
  by (simp add: length_run_calls process_start_def)

theorem resolved_count_positive_witness:
  "1 \<le> omp_team_size \<lparr>getenv_LGBM_DEFAULT_NUM_THREADS = None, omp_team_size = 4\<rparr>
   \<and> map nthreads_var (run_calls 64
       [(\<lparr>getenv_LGBM_DEFAULT_NUM_THREADS = None, omp_team_size = 4\<rparr>, 0),
        (\<lparr>getenv_LGBM_DEFAULT_NUM_THREADS = None, omp_team_size = 4\<rparr>, - 5),
        (\<lparr>getenv_LGBM_DEFAULT_NUM_THREADS = None, omp_team_size = 4\<rparr>, 3)]
       (process_start 1)) = [4, 4, 3]"
proof -
  let ?w = "\<lparr>getenv_LGBM_DEFAULT_NUM_THREADS = None, omp_team_size = 4\<rparr>"
  have h: "\<forall>(w, requested) \<in> set [(?w, 0), (?w, - 5), (?w, 3 :: int)]. 1 \<le> omp_team_size w"
    by simp
  show ?thesis
    using h resolved_count_positive [OF h, of 64 1]
    by (simp add: OMP_SET_NUM_THREADS_def static_default_omp_num_threads_def
        static_lgbm_default_num_threads_def omp_set_num_threads_def process_start_def
        OMP_NUM_THREADS_def LGBM_DEFAULT_NUM_THREADS_def Let_def)
qed

lemma run_calls_override:
  assumes "lgbm_default_num_threads s = Some v" and "0 < v"
  shows "\<forall>s' \<in> set (run_calls lb calls s).
           nthreads_var s' = v \<and> lgbm_default_num_threads s' = Some v
           \<and> getenv_calls s' = getenv_calls s"
  using assms
proof (induction calls arbitrary: s)
  case Nil
  then show ?case by simp
next
  case (Cons c calls)
  obtain w n where c: "c = (w, n)" by (cases c)
  let ?s' = "OMP_SET_NUM_THREADS lb w n s"
  have force: "override_in_force lb w s = v"
    using Cons.prems(1) by (simp add: override_in_force_def)
  have a: "nthreads_var ?s' = v"
    using force Cons.prems(2) by (simp add: OMP_SET_NUM_THREADS_applies)
  have b: "lgbm_default_num_threads ?s' = Some v"
    using force by (simp add: OMP_SET_NUM_THREADS_caches)
  have g: "getenv_calls ?s' = getenv_calls s"
    using Cons.prems(1) by (simp add: OMP_SET_NUM_THREADS_getenv_calls)
  from Cons.IH [OF b Cons.prems(2)] a b g c show ?case by (simp add: Let_def)
qed

text \<open>
  Whatever the variable holds, a run reads it at most once: only the call that
  initialises the static calls \<^verbatim>\<open>std::getenv\<close>.
\<close>

lemma run_calls_getenv_calls:
  "\<forall>s' \<in> set (run_calls lb calls s).
      getenv_calls s' \<le> (case lgbm_default_num_threads s of
                           None \<Rightarrow> Suc (getenv_calls s)
                         | Some v \<Rightarrow> getenv_calls s)"
proof (induction calls arbitrary: s)
  case Nil
  then show ?case by simp
next
  case (Cons c calls)
  obtain w n where c: "c = (w, n)" by (cases c)
  let ?s' = "OMP_SET_NUM_THREADS lb w n s"
  have b: "lgbm_default_num_threads ?s' = Some (override_in_force lb w s)"
    by (simp add: OMP_SET_NUM_THREADS_caches)
  from Cons.IH [of ?s'] b c show ?case
    by (auto simp: Let_def OMP_SET_NUM_THREADS_getenv_calls split: option.splits)
qed

lemma getenv_at_most_once:
  "\<forall>s' \<in> set (run_calls lb calls (process_start n0)). getenv_calls s' \<le> 1"
  using run_calls_getenv_calls [of lb calls "process_start n0"]
  by (simp add: process_start_def)

text \<open>
  Claim C9. When the first call of the process finds a positive override in the
  environment, every call of the run applies that value, whatever is requested and
  whatever the environment or the runtime answer later; the variable has been read
  exactly once and the cached override stays the same.
\<close>

theorem override_fixed_for_process:
  assumes "0 < LGBM_DEFAULT_NUM_THREADS lb w1"
  shows "\<forall>s' \<in> set (run_calls lb ((w1, n1) # calls) (process_start n0)).
           nthreads_var s' = LGBM_DEFAULT_NUM_THREADS lb w1
           \<and> lgbm_default_num_threads s' = Some (LGBM_DEFAULT_NUM_THREADS lb w1)
           \<and> getenv_calls s' = 1"
proof -
  let ?v = "LGBM_DEFAULT_NUM_THREADS lb w1"
  let ?s1 = "OMP_SET_NUM_THREADS lb w1 n1 (process_start n0)"
  have force: "override_in_force lb w1 (process_start n0) = ?v"
    by (simp add: override_in_force_def process_start_def)
  have a: "nthreads_var ?s1 = ?v"
    using force assms by (simp add: OMP_SET_NUM_THREADS_applies)
  have b: "lgbm_default_num_threads ?s1 = Some ?v"
    using force by (simp add: OMP_SET_NUM_THREADS_caches)
  have g: "getenv_calls ?s1 = 1"
    by (simp add: OMP_SET_NUM_THREADS_getenv_calls process_start_def)
  from run_calls_override [OF b assms, of lb calls] a b g show ?thesis
    by (simp add: Let_def)
qed

theorem override_fixed_for_process_witness:
  "0 < LGBM_DEFAULT_NUM_THREADS 64
         \<lparr>getenv_LGBM_DEFAULT_NUM_THREADS = Some ''4'', omp_team_size = 8\<rparr>
   \<and> map (\<lambda>s'. (nthreads_var s', lgbm_default_num_threads s', getenv_calls s'))
       (run_calls 64
          [(\<lparr>getenv_LGBM_DEFAULT_NUM_THREADS = Some ''4'', omp_team_size = 8\<rparr>, 16),
           (\<lparr>getenv_LGBM_DEFAULT_NUM_THREADS = Some ''7'', omp_team_size = 2\<rparr>, - 3),
           (\<lparr>getenv_LGBM_DEFAULT_NUM_THREADS = None, omp_team_size = 8\<rparr>, 0)]
          (process_start 1))
     = [(4, Some 4, 1), (4, Some 4, 1), (4, Some 4, 1)]"
proof -
  let ?w1 = "\<lparr>getenv_LGBM_DEFAULT_NUM_THREADS = Some ''4'', omp_team_size = 8\<rparr>"
  let ?calls = "[(\<lparr>getenv_LGBM_DEFAULT_NUM_THREADS = Some ''7'', omp_team_size = 2\<rparr>, - 3),
                 (\<lparr>getenv_LGBM_DEFAULT_NUM_THREADS = None, omp_team_size = 8\<rparr>, 0 :: int)]"
  have v: "LGBM_DEFAULT_NUM_THREADS 64 ?w1 = 4"
    by (simp add: LGBM_DEFAULT_NUM_THREADS_def strtol_def to_int32_def isspace_def isdigit_def
        decimal_value_def digit_value_def LONG_MAX_def)
  then have h: "0 < LGBM_DEFAULT_NUM_THREADS 64 ?w1" by simp
  show ?thesis
    using h override_fixed_for_process [OF h, of 16 ?calls 1]
    by (simp add: v Let_def)
qed

section \<open>Reading the environment variable\<close>

lemma to_int32_wrap: "to_int32 v = (v + 2147483648) mod 4294967296 - 2147483648"
  by (simp add: to_int32_def int_word_sint)

lemma to_int32_in_range:
  "- 2147483648 \<le> v \<Longrightarrow> v < 2147483648 \<Longrightarrow> to_int32 v = v"
  by (simp add: to_int32_wrap)

lemma foldl_digits_nonneg:
  "\<forall>c \<in> set ds. isdigit c \<Longrightarrow> 0 \<le> acc
     \<Longrightarrow> 0 \<le> foldl (\<lambda>acc c. 10 * acc + digit_value c) acc ds"
proof (induction ds arbitrary: acc)
  case Nil
  then show ?case by simp
next
  case (Cons d ds)
  from Cons.prems have "0 \<le> 10 * acc + digit_value d"
    by (simp add: isdigit_def digit_value_def)
  with Cons show ?case by simp
qed

lemma decimal_value_nonneg: "0 \<le> decimal_value (takeWhile isdigit rest)"
  unfolding decimal_value_def
  by (rule foldl_digits_nonneg) (auto dest: set_takeWhileD)

lemma strtol_unfold:
  assumes "strtol_sign (dropWhile isspace val) = (negative, rest)"
  shows "strtol long_bits val =
           (if negative then max (LONG_MIN long_bits) (- decimal_value (takeWhile isdigit rest))
            else min (LONG_MAX long_bits) (decimal_value (takeWhile isdigit rest)))"
  using assms by (simp add: strtol_def Let_def)

lemma LONG_MAX_nonneg: "0 \<le> LONG_MAX long_bits"
  by (simp add: LONG_MAX_def)

lemma LONG_MIN_nonpos: "LONG_MIN long_bits \<le> 0"
  by (simp add: LONG_MIN_def)

lemma strtol_zero:
  assumes "strtol_sign (dropWhile isspace val) = (negative, rest)"
    and "decimal_value (takeWhile isdigit rest) = 0"
  shows "strtol long_bits val = 0"
  using assms(2) LONG_MAX_nonneg [of long_bits] LONG_MIN_nonpos [of long_bits]
  by (simp add: strtol_unfold [OF assms(1)])

text \<open>The function never fails, and what it returns is the sentinel \<open>-1\<close> or positive.\<close>

lemma LGBM_DEFAULT_NUM_THREADS_sentinel:
  "LGBM_DEFAULT_NUM_THREADS long_bits w = - 1 \<or> 0 < LGBM_DEFAULT_NUM_THREADS long_bits w"
  by (simp add: LGBM_DEFAULT_NUM_THREADS_def Let_def split: option.splits)

text \<open>
  The malformed values that do fall through to the sentinel, whatever the width of
  \<^verbatim>\<open>long\<close>: variable not set; a value that denotes zero, which covers the empty string
  and every value in which no digit follows the white space and the sign; a negative
  value down to \<open>-2^31\<close>.
\<close>

lemma LGBM_DEFAULT_NUM_THREADS_unset:
  "getenv_LGBM_DEFAULT_NUM_THREADS w = None \<Longrightarrow> LGBM_DEFAULT_NUM_THREADS long_bits w = - 1"
  by (simp add: LGBM_DEFAULT_NUM_THREADS_def)

lemma LGBM_DEFAULT_NUM_THREADS_zero:
  assumes "getenv_LGBM_DEFAULT_NUM_THREADS w = Some val"
    and "strtol_sign (dropWhile isspace val) = (negative, rest)"
    and "decimal_value (takeWhile isdigit rest) = 0"
  shows "LGBM_DEFAULT_NUM_THREADS long_bits w = - 1"
  using assms(1) strtol_zero [OF assms(2,3), of long_bits]
  by (simp add: LGBM_DEFAULT_NUM_THREADS_def to_int32_wrap)

lemma LGBM_DEFAULT_NUM_THREADS_empty:
  assumes "getenv_LGBM_DEFAULT_NUM_THREADS w = Some []"
  shows "LGBM_DEFAULT_NUM_THREADS long_bits w = - 1"
proof -
  have "strtol_sign (dropWhile isspace []) = (False, [])" by simp
  moreover have "decimal_value (takeWhile isdigit []) = 0"
    by (simp add: decimal_value_def)
  ultimately show ?thesis
    using assms by (rule LGBM_DEFAULT_NUM_THREADS_zero [rotated])
qed

lemma LGBM_DEFAULT_NUM_THREADS_no_digit:
  assumes "getenv_LGBM_DEFAULT_NUM_THREADS w = Some val"
    and "strtol_sign (dropWhile isspace val) = (negative, rest)"
    and "rest = [] \<or> \<not> isdigit (hd rest)"
  shows "LGBM_DEFAULT_NUM_THREADS long_bits w = - 1"
proof -
  from assms(3) have "takeWhile isdigit rest = []"
    by (cases rest) auto
  then have "decimal_value (takeWhile isdigit rest) = 0"
    by (simp add: decimal_value_def)
  with assms(1,2) show ?thesis by (rule LGBM_DEFAULT_NUM_THREADS_zero)
qed

lemma LGBM_DEFAULT_NUM_THREADS_negative_small:
  assumes "getenv_LGBM_DEFAULT_NUM_THREADS w = Some val"
    and "strtol_sign (dropWhile isspace val) = (True, rest)"
    and "decimal_value (takeWhile isdigit rest) \<le> 2147483648"
  shows "LGBM_DEFAULT_NUM_THREADS long_bits w = - 1"
proof -
  let ?m = "decimal_value (takeWhile isdigit rest)"
  have v: "strtol long_bits val = max (LONG_MIN long_bits) (- ?m)"
    by (simp add: strtol_unfold [OF assms(2)])
  have "0 \<le> ?m" by (rule decimal_value_nonneg)
  with assms(3) LONG_MIN_nonpos [of long_bits]
  have "- 2147483648 \<le> strtol long_bits val" "strtol long_bits val \<le> 0"
    unfolding v by auto
  then have "to_int32 (strtol long_bits val) \<le> 0"
    by (simp add: to_int32_in_range)
  with assms(1) show ?thesis
    by (simp add: LGBM_DEFAULT_NUM_THREADS_def Let_def)
qed

text \<open>Where \<^verbatim>\<open>long\<close> has 32 bits, every negative value falls through.\<close>

lemma LGBM_DEFAULT_NUM_THREADS_negative_long32:
  assumes "getenv_LGBM_DEFAULT_NUM_THREADS w = Some val"
    and "strtol_sign (dropWhile isspace val) = (True, rest)"
  shows "LGBM_DEFAULT_NUM_THREADS 32 w = - 1"
proof -
  let ?m = "decimal_value (takeWhile isdigit rest)"
  have v: "strtol 32 val = max (LONG_MIN 32) (- ?m)"
    by (simp add: strtol_unfold [OF assms(2)])
  have "0 \<le> ?m" by (rule decimal_value_nonneg)
  then have "- 2147483648 \<le> strtol 32 val" "strtol 32 val \<le> 0"
    unfolding v by (auto simp: LONG_MIN_def)
  then have "to_int32 (strtol 32 val) \<le> 0"
    by (simp add: to_int32_in_range)
  with assms(1) show ?thesis
    by (simp add: LGBM_DEFAULT_NUM_THREADS_def Let_def)
qed

text \<open>
  A value that denotes a positive number below \<open>2^31\<close> is returned as that number,
  where \<^verbatim>\<open>long\<close> has at least 32 bits.
\<close>

lemma LGBM_DEFAULT_NUM_THREADS_positive:
  assumes "getenv_LGBM_DEFAULT_NUM_THREADS w = Some val"
    and "strtol_sign (dropWhile isspace val) = (False, rest)"
    and "0 < decimal_value (takeWhile isdigit rest)"
    and "decimal_value (takeWhile isdigit rest) < 2147483648"
    and "32 \<le> long_bits"
  shows "LGBM_DEFAULT_NUM_THREADS long_bits w = decimal_value (takeWhile isdigit rest)"
proof -
  let ?m = "decimal_value (takeWhile isdigit rest)"
  from assms(5) have "(2::int) ^ 31 \<le> 2 ^ (long_bits - 1)"
    by (intro power_increasing) simp_all
  then have "2147483647 \<le> LONG_MAX long_bits" by (simp add: LONG_MAX_def)
  with assms(4) have "strtol long_bits val = ?m"
    by (simp add: strtol_unfold [OF assms(2)])
  moreover from assms(3,4) have "to_int32 ?m = ?m" by (simp add: to_int32_in_range)
  ultimately show ?thesis
    using assms(1,3) by (simp add: LGBM_DEFAULT_NUM_THREADS_def Let_def)
qed

text \<open>
  Claim C6. Every malformed value of the variable (not set, empty, without digits,
  zero, negative) is to be treated as absent, so that the requested count or the system
  default applies. Where \<^verbatim>\<open>long\<close> has 64 bits this fails for the negative value
  \<^verbatim>\<open>-4294967295\<close>: \<^verbatim>\<open>strtol\<close> returns it unchanged, the assignment to
  \<^verbatim>\<open>int32_t\<close> wraps it to 1, the test \<^verbatim>\<open>ans > 0\<close> accepts it, and a request for
  8 threads is resolved to 1.
\<close>

theorem negative_override_accepted_long64:
  "strtol 64 ''-4294967295'' = - 4294967295
   \<and> LGBM_DEFAULT_NUM_THREADS 64
       \<lparr>getenv_LGBM_DEFAULT_NUM_THREADS = Some ''-4294967295'', omp_team_size = 4\<rparr> = 1
   \<and> nthreads_var (OMP_SET_NUM_THREADS 64
        \<lparr>getenv_LGBM_DEFAULT_NUM_THREADS = Some ''-4294967295'', omp_team_size = 4\<rparr> 8
        (process_start 4)) = 1"
  by (simp add: LGBM_DEFAULT_NUM_THREADS_def strtol_def to_int32_def isspace_def isdigit_def
      decimal_value_def digit_value_def LONG_MIN_def OMP_SET_NUM_THREADS_def
      static_default_omp_num_threads_def static_lgbm_default_num_threads_def
      omp_set_num_threads_def process_start_def OMP_NUM_THREADS_def)

section \<open>The exception barrier\<close>

subsection \<open>Calls one after the other\<close>

lemma CaptureException_held:
  "ex_ptr h = Some e \<Longrightarrow> CaptureException cur h = Some h"
  by (simp add: CaptureException_def)

lemma CaptureException_empty:
  "ex_ptr h = None \<Longrightarrow> \<not> lock h \<Longrightarrow> CaptureException cur h = Some (h\<lparr>ex_ptr := cur\<rparr>)"
  by (simp add: CaptureException_def Let_def)

lemma capture_all_held:
  "ex_ptr h = Some e \<Longrightarrow> capture_all curs h = Some h"
  by (induction curs) (simp_all add: CaptureException_held)

lemma capture_all_empty:
  "ex_ptr h = None \<Longrightarrow> \<not> lock h
     \<Longrightarrow> capture_all curs h = Some (h\<lparr>ex_ptr := first_signal curs\<rparr>)"
proof (induction curs arbitrary: h)
  case Nil
  then show ?case by simp
next
  case (Cons c curs)
  show ?case
  proof (cases c)
    case None
    with Cons.prems have "CaptureException c h = Some h"
      by (simp add: CaptureException_empty)
    with Cons None show ?thesis by simp
  next
    case (Some e)
    with Cons.prems have "CaptureException c h = Some (h\<lparr>ex_ptr := Some e\<rparr>)"
      by (simp add: CaptureException_empty)
    with Some show ?thesis by (simp add: capture_all_held)
  qed
qed

lemma ReThrow_empty: "ex_ptr h = None \<Longrightarrow> ReThrow h = (Returned, h)"
  by (simp add: ReThrow_def)

lemma ReThrow_held: "ex_ptr h = Some e \<Longrightarrow> ReThrow h = (Raised e, h)"
  by (simp add: ReThrow_def)

text \<open>
  Claim C3. \<^verbatim>\<open>ReThrow\<close> on a helper whose slot is empty returns and raises nothing;
  on a helper that went through a sequence of captures it raises the first signal that
  was captured.
\<close>

theorem ReThrow_empty_or_first:
  "(ex_ptr h = None \<longrightarrow> ReThrow h = (Returned, h))
   \<and> (first_signal curs = Some e \<longrightarrow>
        (\<exists>h'. capture_all curs ThreadExceptionHelper_new = Some h'
              \<and> fst (ReThrow h') = Raised e))"
  by (simp add: ReThrow_empty ReThrow_held capture_all_empty ThreadExceptionHelper_new_def)

theorem ReThrow_empty_or_first_witness:
  "ex_ptr (ThreadExceptionHelper_new :: nat ThreadExceptionHelper) = None
   \<and> ReThrow (ThreadExceptionHelper_new :: nat ThreadExceptionHelper)
       = (Returned, ThreadExceptionHelper_new)
   \<and> first_signal [None, Some (5::nat), Some 6] = Some 5
   \<and> (\<exists>h'. capture_all [None, Some (5::nat), Some 6] ThreadExceptionHelper_new = Some h'
            \<and> fst (ReThrow h') = Raised 5)"
proof -
  let ?h = "ThreadExceptionHelper_new :: nat ThreadExceptionHelper"
  note t = ReThrow_empty_or_first [of ?h "[None, Some 5, Some 6]" 5]
  have h: "ex_ptr ?h = None" by (simp add: ThreadExceptionHelper_new_def)
  have f: "first_signal [None, Some (5::nat), Some 6] = Some 5" by simp
  from t h have a: "ReThrow ?h = (Returned, ?h)" by blast
  from t f have b: "\<exists>h'. capture_all [None, Some (5::nat), Some 6] ThreadExceptionHelper_new
                          = Some h' \<and> fst (ReThrow h') = Raised 5"
    by blast
  from h a f b show ?thesis by blast
qed

text \<open>
  The destructor: it returns when the slot is empty, and with a signal in the slot the
  raise inside it ends the process. So does the end of the block after
  \<^verbatim>\<open>OMP_THROW_EX()\<close> has raised the signal, since the slot is still set when the
  stack is unwound.
\<close>

lemma ThreadExceptionHelper_delete_empty:
  "ex_ptr h = None \<Longrightarrow> ThreadExceptionHelper_delete h = Returned"
  by (simp add: ThreadExceptionHelper_delete_def ReThrow_empty noexcept_boundary_def)

lemma ThreadExceptionHelper_delete_held:
  "ex_ptr h = Some e \<Longrightarrow> ThreadExceptionHelper_delete h = Terminated e"
  by (simp add: ThreadExceptionHelper_delete_def ReThrow_held noexcept_boundary_def)

lemma ReThrow_keeps_slot: "snd (ReThrow h) = h"
  by (simp add: ReThrow_def split: option.splits)

lemma scope_exit_empty:
  "ex_ptr h = None \<Longrightarrow> scope_exit (OMP_THROW_EX h) = Returned"
  by (simp add: scope_exit_def OMP_THROW_EX_def ReThrow_empty
      ThreadExceptionHelper_delete_empty)

lemma scope_exit_held:
  "ex_ptr h = Some e \<Longrightarrow> scope_exit (OMP_THROW_EX h) = Terminated e"
  by (simp add: scope_exit_def OMP_THROW_EX_def ReThrow_held
      ThreadExceptionHelper_delete_held)

text \<open>
  Claim C4. After \<^verbatim>\<open>ReThrow\<close> has raised the captured signal the slot is to be
  cleared, so that the destruction of the helper raises nothing more. The code does not
  clear it. A worker captures the signal \<^verbatim>\<open>X\<close>; \<^verbatim>\<open>OMP_THROW_EX()\<close> raises
  \<^verbatim>\<open>X\<close> and leaves the slot set; the destructor, run while the stack is unwound,
  raises \<^verbatim>\<open>X\<close> once more inside itself, and the process is terminated: the caller
  never receives the signal that was drained.
\<close>

theorem drain_then_destroy_terminates:
  "capture_all [Some ''X''] ThreadExceptionHelper_new
     = Some \<lparr>ex_ptr = Some ''X'', lock = False\<rparr>
   \<and> OMP_THROW_EX \<lparr>ex_ptr = Some ''X'', lock = False\<rparr>
       = (Raised ''X'', \<lparr>ex_ptr = Some ''X'', lock = False\<rparr>)
   \<and> ThreadExceptionHelper_delete (snd (OMP_THROW_EX \<lparr>ex_ptr = Some ''X'', lock = False\<rparr>))
       = Terminated ''X''
   \<and> scope_exit (OMP_THROW_EX \<lparr>ex_ptr = Some ''X'', lock = False\<rparr>) = Terminated ''X''"
  by (simp add: CaptureException_def ThreadExceptionHelper_new_def OMP_THROW_EX_def
      ReThrow_def scope_exit_def ThreadExceptionHelper_delete_def noexcept_boundary_def)

text \<open>
  Claim C5. A helper destroyed while it holds a signal that was never drained is to
  raise that signal, once, to the thread that destroys it. The destructor does call
  \<^verbatim>\<open>ReThrow()\<close>, but it is implicitly \<^verbatim>\<open>noexcept\<close>: a worker captures the signal
  \<^verbatim>\<open>X\<close>, the helper is destroyed without a drain, and the process is terminated; no
  caller receives \<^verbatim>\<open>X\<close>.
\<close>

theorem delete_with_held_signal_terminates:
  "capture_all [Some ''X''] ThreadExceptionHelper_new
     = Some \<lparr>ex_ptr = Some ''X'', lock = False\<rparr>
   \<and> ThreadExceptionHelper_delete \<lparr>ex_ptr = Some ''X'', lock = False\<rparr> = Terminated ''X''
   \<and> scope_exit (Returned, \<lparr>ex_ptr = Some ''X'', lock = False\<rparr>) = Terminated ''X''"
  by (simp add: CaptureException_def ThreadExceptionHelper_new_def ReThrow_def
      scope_exit_def ThreadExceptionHelper_delete_def noexcept_boundary_def)

text \<open>
  Claim C10. A call of \<^verbatim>\<open>CaptureException\<close> with no exception in flight
  (\<^verbatim>\<open>std::current_exception()\<close> is null) on a helper with an empty slot leaves the
  helper as it is: \<^verbatim>\<open>ReThrow\<close> and the destructor then raise nothing, and a later
  call with a signal in flight captures that signal, which \<^verbatim>\<open>ReThrow\<close> then raises.
\<close>

theorem capture_without_signal:
  assumes "ex_ptr h = None" and "\<not> lock h"
  shows "CaptureException None h = Some h
       \<and> ReThrow h = (Returned, h)
       \<and> ThreadExceptionHelper_delete h = Returned
       \<and> CaptureException (Some e) h = Some (h\<lparr>ex_ptr := Some e\<rparr>)
       \<and> ReThrow (h\<lparr>ex_ptr := Some e\<rparr>) = (Raised e, h\<lparr>ex_ptr := Some e\<rparr>)"
  using assms
  by (simp add: CaptureException_empty ReThrow_empty ReThrow_held
      ThreadExceptionHelper_delete_def noexcept_boundary_def)

theorem capture_without_signal_witness:
  "ex_ptr (ThreadExceptionHelper_new :: nat ThreadExceptionHelper) = None
   \<and> \<not> lock (ThreadExceptionHelper_new :: nat ThreadExceptionHelper)
   \<and> CaptureException None (ThreadExceptionHelper_new :: nat ThreadExceptionHelper)
       = Some ThreadExceptionHelper_new
   \<and> ThreadExceptionHelper_delete (ThreadExceptionHelper_new :: nat ThreadExceptionHelper)
       = Returned
   \<and> CaptureException (Some 3) (ThreadExceptionHelper_new :: nat ThreadExceptionHelper)
       = Some \<lparr>ex_ptr = Some 3, lock = False\<rparr>"
proof -
  let ?h = "ThreadExceptionHelper_new :: nat ThreadExceptionHelper"
  have a: "ex_ptr ?h = None" and b: "\<not> lock ?h"
    by (simp_all add: ThreadExceptionHelper_new_def)
  show ?thesis
    using a b capture_without_signal [OF a b, of 3]
    by (simp add: ThreadExceptionHelper_new_def)
qed

subsection \<open>Calls of concurrent workers\<close>

text \<open>
  A worker that runs its call without interference does what \<^verbatim>\<open>CaptureException\<close>
  does as one call; five steps are enough.
\<close>

lemma capture_alone_CaptureException:
  "capture_alone 5 cur Test_unlocked h = CaptureException cur h"
  by (simp add: eval_nat_numeral CaptureException_def Let_def)

text \<open>
  The workers of a region start together on a new helper. The invariant holds at the
  start and after every step; hence a signal, once in the slot, stays there in every
  interleaving, and as long as a worker has not returned some worker can move.
\<close>

lemma mutex_inv_start: "mutex_inv (region_start curs)"
  by (simp add: mutex_inv_def region_start_def critical_def workers_at_def
      ThreadExceptionHelper_new_def)

lemma workers_at_update:
  assumes "i < length ws"
  shows "workers_at P (ws[i := (cur, p')]) =
           (if P p' then insert i (workers_at P ws) else workers_at P ws - {i})"
  using assms by (auto simp: workers_at_def nth_list_update)

lemma workers_at_mem:
  "i < length ws \<Longrightarrow> ws ! i = (cur, p) \<Longrightarrow> i \<in> workers_at P ws \<longleftrightarrow> P p"
  by (simp add: workers_at_def)

lemma Assign_critical: "workers_at (\<lambda>p. p = Assign) ws \<subseteq> workers_at critical ws"
  by (auto simp: workers_at_def critical_def)

lemma mutex_inv_step:
  assumes "interleave c c'" and "mutex_inv c"
  shows "mutex_inv c'"
  using assms
proof (cases rule: interleave.cases)
  case (move i ws cur p h p' h')
  note upd = workers_at_update [OF move(3)]
  note mem = workers_at_mem [OF move(3,4)]
  from \<open>mutex_inv c\<close> move(1)
  have lk: "if lock h then \<exists>k. workers_at critical ws = {k} else workers_at critical ws = {}"
    and asg: "workers_at (\<lambda>p. p = Assign) ws \<noteq> {} \<longrightarrow> ex_ptr h = None"
    by (simp_all add: mutex_inv_def)
  have sole: "critical p \<Longrightarrow> workers_at critical ws = {i} \<and> lock h"
    using lk mem [of critical] by (auto split: if_splits)
  show ?thesis
  proof (cases p)
    case Test_unlocked
    with move(5) have h': "h' = h" and p': "\<not> critical p'" "p' \<noteq> Assign"
      by (auto simp: critical_def split: if_splits)
    have "i \<notin> workers_at critical ws" "i \<notin> workers_at (\<lambda>p. p = Assign) ws"
      using mem [of critical] mem [of "\<lambda>p. p = Assign"] Test_unlocked
      by (simp_all add: critical_def)
    with lk asg h' p' show ?thesis
      unfolding move(2) mutex_inv_def by (simp add: upd)
  next
    case Acquire
    with move(5) have free: "\<not> lock h" and h': "h' = h\<lparr>lock := True\<rparr>" and p': "p' = Test_locked"
      by (auto split: if_splits)
    from free lk have none: "workers_at critical ws = {}" by simp
    with Assign_critical [of ws] have "workers_at (\<lambda>p. p = Assign) ws = {}" by auto
    with none h' p' show ?thesis
      unfolding move(2) mutex_inv_def by (simp add: upd critical_def)
  next
    case Test_locked
    with move(5) have h': "h' = h"
      and p': "(p' = Release \<and> ex_ptr h \<noteq> None) \<or> (p' = Assign \<and> ex_ptr h = None)"
      by (auto split: if_splits)
    from sole Test_locked have s: "workers_at critical ws = {i}" "lock h"
      by (simp_all add: critical_def)
    with Assign_critical [of ws] have "workers_at (\<lambda>p. p = Assign) ws \<subseteq> {i}" by auto
    with s h' p' show ?thesis
      unfolding move(2) mutex_inv_def by (auto simp: upd critical_def)
  next
    case Assign
    with move(5) have h': "h' = h\<lparr>ex_ptr := cur\<rparr>" and p': "p' = Release"
      by auto
    from sole Assign have s: "workers_at critical ws = {i}" "lock h"
      by (simp_all add: critical_def)
    with Assign_critical [of ws] have "workers_at (\<lambda>p. p = Assign) ws \<subseteq> {i}" by auto
    with s h' p' show ?thesis
      unfolding move(2) mutex_inv_def by (auto simp: upd critical_def)
  next
    case Release
    with move(5) have h': "h' = h\<lparr>lock := False\<rparr>" and p': "p' = Finished"
      by auto
    from sole Release have s: "workers_at critical ws = {i}" "lock h"
      by (simp_all add: critical_def)
    with Assign_critical [of ws] have "workers_at (\<lambda>p. p = Assign) ws \<subseteq> {i}" by auto
    moreover have "i \<notin> workers_at (\<lambda>p. p = Assign) ws"
      using mem [of "\<lambda>p. p = Assign"] Release by simp
    ultimately have "workers_at (\<lambda>p. p = Assign) ws = {}" by auto
    with s h' p' show ?thesis
      unfolding move(2) mutex_inv_def by (simp add: upd critical_def)
  next
    case Finished
    with move(5) show ?thesis by simp
  qed
qed

lemma mutex_inv_reachable:
  "interleave\<^sup>*\<^sup>* c c' \<Longrightarrow> mutex_inv c \<Longrightarrow> mutex_inv c'"
  by (induction rule: rtranclp_induct) (auto intro: mutex_inv_step)

lemma interleave_keeps_signal:
  assumes "interleave c c'" and "mutex_inv c" and "ex_ptr (snd c) = Some e"
  shows "ex_ptr (snd c') = Some e"
  using assms
proof (cases rule: interleave.cases)
  case (move i ws cur p h p' h')
  from \<open>mutex_inv c\<close> move(1) workers_at_mem [OF move(3,4), of "\<lambda>p. p = Assign"]
  have "p = Assign \<Longrightarrow> ex_ptr h = None"
    by (auto simp: mutex_inv_def)
  with assms(3) move(1) have "p \<noteq> Assign" by auto
  with move(5) have "ex_ptr h' = ex_ptr h"
    by (cases p) (auto split: if_splits)
  with assms(3) move(1,2) show ?thesis by simp
qed

lemma interleave_first_wins:
  assumes "interleave\<^sup>*\<^sup>* c c'" and "mutex_inv c" and "ex_ptr (snd c) = Some e"
  shows "ex_ptr (snd c') = Some e"
  using assms
proof (induction rule: rtranclp_induct)
  case base
  then show ?case by simp
next
  case (step y z)
  from step.hyps(1) step.prems(1) have "mutex_inv y" by (rule mutex_inv_reachable)
  with step show ?case by (auto intro: interleave_keeps_signal)
qed

lemma interleave_no_deadlock:
  assumes "mutex_inv (ws, h)" and "i < length ws" and "snd (ws ! i) \<noteq> Finished"
  shows "\<exists>c'. interleave (ws, h) c'"
proof (cases "lock h")
  case True
  with assms(1) obtain k where "workers_at critical ws = {k}"
    by (auto simp: mutex_inv_def)
  then have "k \<in> workers_at critical ws" by simp
  then have k: "k < length ws" "critical (snd (ws ! k))"
    by (simp_all add: workers_at_def)
  obtain cur p where wk: "ws ! k = (cur, p)" by (cases "ws ! k")
  with k(2) have "\<exists>r. capture_step cur p h = Some r"
    by (cases p) (auto simp: critical_def)
  then obtain p' h' where "capture_step cur p h = Some (p', h')" by auto
  from interleave.move [OF k(1) wk this] show ?thesis by blast
next
  case False
  obtain cur p where wi: "ws ! i = (cur, p)" by (cases "ws ! i")
  with assms(3) False have "\<exists>r. capture_step cur p h = Some r"
    by (cases p) auto
  then obtain p' h' where "capture_step cur p h = Some (p', h')" by auto
  from interleave.move [OF assms(2) wi this] show ?thesis by blast
qed

lemma signal_kept_start: "signal_kept (region_start curs)"
  by (simp add: signal_kept_def region_start_def ThreadExceptionHelper_new_def)

lemma signal_update:
  "i < length ws \<Longrightarrow> ws ! i = (cur, p) \<Longrightarrow> k < length ws
     \<Longrightarrow> fst (ws[i := (cur, p')] ! k) = fst (ws ! k)"
  by (cases "k = i") simp_all

lemma interleave_signals: "interleave (ws, h) (ws', h') \<Longrightarrow> map fst ws' = map fst ws"
  by (erule interleave.cases) (simp add: map_update list_update_same_conv)

lemma signal_kept_step:
  assumes "interleave c c'" and "mutex_inv c" and "signal_kept c"
  shows "signal_kept c'"
  using assms(1)
proof (cases rule: interleave.cases)
  case (move i ws cur p h p' h')
  let ?ws' = "ws[i := (cur, p')]"
  note sig = signal_update [OF move(3,4)]
  from assms(3) move(1)
  have kept: "\<And>k. k < length ws \<Longrightarrow> snd (ws ! k) = Release \<or> snd (ws ! k) = Finished
                 \<Longrightarrow> fst (ws ! k) \<noteq> None \<Longrightarrow> ex_ptr h \<noteq> None"
    and from_worker: "\<And>e. ex_ptr h = Some e \<Longrightarrow> \<exists>k < length ws. fst (ws ! k) = Some e"
    by (auto simp: signal_kept_def)
  from assms(2) move(1) workers_at_mem [OF move(3,4), of "\<lambda>p. p = Assign"]
  have empty: "p = Assign \<Longrightarrow> ex_ptr h = None"
    by (auto simp: mutex_inv_def)
  have slot: "ex_ptr h' = ex_ptr h \<or> (p = Assign \<and> ex_ptr h' = cur)"
    using move(5) by (cases p) (auto split: if_splits)
  have arrive: "(p' = Release \<or> p' = Finished) \<Longrightarrow> cur \<noteq> None \<Longrightarrow> ex_ptr h' \<noteq> None"
    using move(5) kept [OF move(3)] move(4)
    by (cases p) (auto split: if_splits)
  have a: "\<forall>k < length ?ws'. (snd (?ws' ! k) = Release \<or> snd (?ws' ! k) = Finished)
          \<and> fst (?ws' ! k) \<noteq> None \<longrightarrow> ex_ptr h' \<noteq> None"
  proof (intro allI impI)
    fix k
    assume k: "k < length ?ws'"
      and at: "(snd (?ws' ! k) = Release \<or> snd (?ws' ! k) = Finished)
               \<and> fst (?ws' ! k) \<noteq> None"
    show "ex_ptr h' \<noteq> None"
    proof (cases "k = i")
      case True
      with at move(3) show ?thesis using arrive by simp
    next
      case False
      with at k have "ex_ptr h \<noteq> None" using kept [of k] by simp
      with slot empty show ?thesis by auto
    qed
  qed
  have b: "\<forall>e. ex_ptr h' = Some e \<longrightarrow> (\<exists>k < length ?ws'. fst (?ws' ! k) = Some e)"
  proof (intro allI impI)
    fix e assume e: "ex_ptr h' = Some e"
    from slot show "\<exists>k < length ?ws'. fst (?ws' ! k) = Some e"
    proof
      assume "ex_ptr h' = ex_ptr h"
      with e from_worker obtain k where "k < length ws" "fst (ws ! k) = Some e" by auto
      with sig [of k] show ?thesis by auto
    next
      assume "p = Assign \<and> ex_ptr h' = cur"
      with e move(3,4) have "i < length ?ws'" "fst (?ws' ! i) = Some e" by simp_all
      then show ?thesis by blast
    qed
  qed
  from a b show ?thesis
    unfolding move(2) signal_kept_def by simp
qed

lemma reachable_invariants:
  "interleave\<^sup>*\<^sup>* c c' \<Longrightarrow> mutex_inv c \<and> signal_kept c \<Longrightarrow> mutex_inv c' \<and> signal_kept c'"
  by (induction rule: rtranclp_induct) (auto intro: mutex_inv_step signal_kept_step)

lemma reachable_signals:
  "interleave\<^sup>*\<^sup>* c c' \<Longrightarrow> map fst (fst c') = map fst (fst c)"
proof (induction rule: rtranclp_induct)
  case base
  show ?case by simp
next
  case (step y z)
  from step.hyps(2) have "map fst (fst z) = map fst (fst y)"
    by (cases y, cases z) (simp add: interleave_signals)
  with step.IH show ?case by simp
qed

text \<open>
  When all workers of a region have returned, the slot is empty exactly when no worker
  had a signal in flight, and a signal it holds is the signal of one of the workers.
\<close>

lemma region_end_signal:
  assumes run: "interleave\<^sup>*\<^sup>* (region_start curs) (ws, h)"
    and fin: "\<forall>i < length ws. snd (ws ! i) = Finished"
  shows "(ex_ptr h = None \<longleftrightarrow> (\<forall>c \<in> set curs. c = None))
       \<and> (\<forall>e. ex_ptr h = Some e \<longrightarrow> Some e \<in> set curs)"
proof -
  from reachable_invariants [OF run] mutex_inv_start signal_kept_start
  have "signal_kept (ws, h)" by blast
  then have kept: "\<And>k. k < length ws \<Longrightarrow> fst (ws ! k) \<noteq> None \<Longrightarrow> ex_ptr h \<noteq> None"
    and from_worker: "\<And>e. ex_ptr h = Some e \<Longrightarrow> \<exists>k < length ws. fst (ws ! k) = Some e"
    using fin by (auto simp: signal_kept_def)
  from reachable_signals [OF run] have sig: "map fst ws = curs"
    by (simp add: region_start_def comp_def)
  then have len: "length curs = length ws" by auto
  have nth: "\<And>k. k < length ws \<Longrightarrow> curs ! k = fst (ws ! k)"
    using sig by (metis nth_map)
  have b: "\<forall>e. ex_ptr h = Some e \<longrightarrow> Some e \<in> set curs"
  proof (intro allI impI)
    fix e assume "ex_ptr h = Some e"
    with from_worker obtain k where "k < length ws" "fst (ws ! k) = Some e" by blast
    with nth len show "Some e \<in> set curs" by (metis nth_mem)
  qed
  have a: "ex_ptr h = None \<longleftrightarrow> (\<forall>c \<in> set curs. c = None)"
  proof
    assume none: "ex_ptr h = None"
    show "\<forall>c \<in> set curs. c = None"
    proof
      fix c assume "c \<in> set curs"
      then obtain k where "k < length curs" "curs ! k = c" by (auto simp: in_set_conv_nth)
      with len nth kept [of k] none show "c = None" by (cases c) auto
    qed
  next
    assume "\<forall>c \<in> set curs. c = None"
    with b show "ex_ptr h = None" by (cases "ex_ptr h") auto
  qed
  from a b show ?thesis by simp
qed

text \<open>
  Hence \<^verbatim>\<open>ReThrow\<close> after the region: it returns when no worker had a signal in
  flight, and otherwise raises the signal of one of the workers.
\<close>

lemma region_end_ReThrow:
  assumes "interleave\<^sup>*\<^sup>* (region_start curs) (ws, h)"
    and "\<forall>i < length ws. snd (ws ! i) = Finished"
  shows "if \<forall>c \<in> set curs. c = None then ReThrow h = (Returned, h)
         else \<exists>e. Some e \<in> set curs \<and> ReThrow h = (Raised e, h)"
proof (cases "ex_ptr h")
  case None
  with region_end_signal [OF assms] show ?thesis by (simp add: ReThrow_empty)
next
  case (Some e)
  with region_end_signal [OF assms] have "Some e \<in> set curs" "\<not> (\<forall>c \<in> set curs. c = None)"
    by auto
  with Some show ?thesis by (auto simp: ReThrow_held)
qed

text \<open>In a region, a signal once in the slot is never replaced.\<close>

lemma region_first_wins:
  assumes "interleave\<^sup>*\<^sup>* (region_start curs) c" and "interleave\<^sup>*\<^sup>* c c'"
    and "ex_ptr (snd c) = Some e"
  shows "ex_ptr (snd c') = Some e"
  using interleave_first_wins [OF assms(2) _ assms(3)]
        mutex_inv_reachable [OF assms(1) mutex_inv_start]
  by blast

text \<open>Every step uses up work, so no interleaving goes on for ever.\<close>

lemma capture_step_advances:
  "capture_step cur p h = Some (p', h') \<Longrightarrow> steps_left p' < steps_left p"
  by (cases p) (auto split: if_splits)

lemma interleave_work_left:
  assumes "interleave c c'"
  shows "work_left c' < work_left c"
  using assms
proof (cases rule: interleave.cases)
  case (move i ws cur p h p' h')
  let ?r = "map (\<lambda>w. steps_left (snd w)) ws"
  from move(5) have less: "steps_left p' < steps_left p" by (rule capture_step_advances)
  have at: "?r ! i = steps_left p" using move(3,4) by simp
  have "map (\<lambda>w. steps_left (snd w)) (ws[i := (cur, p')]) = ?r[i := steps_left p']"
    by (simp add: map_update)
  then have "work_left c' = sum_list (?r[i := steps_left p'])"
    by (simp add: work_left_def move(2))
  also have "\<dots> = sum_list ?r + steps_left p' - ?r ! i"
    using move(3) by (simp add: sum_list_update)
  also have "\<dots> < sum_list ?r"
  proof -
    have "?r ! i \<le> sum_list ?r"
      using move(3) by (simp add: member_le_sum_list)
    with less at show ?thesis by simp
  qed
  finally show ?thesis by (simp add: work_left_def move(1))
qed

lemma interleave_terminates: "wfP (\<lambda>c' c. interleave c c')"
proof -
  have "{(c', c). interleave c c'} \<subseteq> measure work_left"
    by (auto simp: interleave_work_left)
  then have "wf {(c', c). interleave c c'}"
    by (rule wf_subset [OF wf_measure])
  then show ?thesis by (simp add: wfp_def)
qed

text \<open>
  Which signal is first is decided by the order in which the workers take the mutex. A
  run of two workers in which the second one assigns and the first one then gives way:
\<close>

lemma second_worker_assigns:
  "interleave\<^sup>*\<^sup>* (region_start [Some (1::nat), Some 2])
     ([(Some 1, Acquire), (Some 2, Release)], \<lparr>ex_ptr = Some 2, lock = True\<rparr>)"
proof -
  let ?free = "\<lparr>ex_ptr = None :: nat option, lock = False\<rparr>"
  let ?held = "\<lparr>ex_ptr = None :: nat option, lock = True\<rparr>"
  let ?set_held = "\<lparr>ex_ptr = Some (2::nat), lock = True\<rparr>"
  have s1: "interleave ([(Some 1, Test_unlocked), (Some 2, Test_unlocked)], ?free)
                       ([(Some 1, Acquire), (Some 2, Test_unlocked)], ?free)"
    using interleave.move [of 0 "[(Some 1, Test_unlocked), (Some 2, Test_unlocked)]"
        "Some (1::nat)" Test_unlocked ?free Acquire ?free]
    by simp
  have s2: "interleave ([(Some 1, Acquire), (Some 2, Test_unlocked)], ?free)
                       ([(Some 1, Acquire), (Some 2, Acquire)], ?free)"
    using interleave.move [of 1 "[(Some 1, Acquire), (Some 2, Test_unlocked)]"
        "Some (2::nat)" Test_unlocked ?free Acquire ?free]
    by simp
  have s3: "interleave ([(Some 1, Acquire), (Some 2, Acquire)], ?free)
                       ([(Some 1, Acquire), (Some 2, Test_locked)], ?held)"
    using interleave.move [of 1 "[(Some 1, Acquire), (Some 2, Acquire)]"
        "Some (2::nat)" Acquire ?free Test_locked ?held]
    by simp
  have s4: "interleave ([(Some 1, Acquire), (Some 2, Test_locked)], ?held)
                       ([(Some 1, Acquire), (Some 2, Assign)], ?held)"
    using interleave.move [of 1 "[(Some 1, Acquire), (Some 2, Test_locked)]"
        "Some (2::nat)" Test_locked ?held Assign ?held]
    by simp
  have s5: "interleave ([(Some 1, Acquire), (Some 2, Assign)], ?held)
                       ([(Some 1, Acquire), (Some 2, Release)], ?set_held)"
    using interleave.move [of 1 "[(Some 1, Acquire), (Some 2, Assign)]"
        "Some (2::nat)" Assign ?held Release ?set_held]
    by simp
  have start: "region_start [Some (1::nat), Some 2]
                 = ([(Some 1, Test_unlocked), (Some 2, Test_unlocked)], ?free)"
    by (simp add: region_start_def ThreadExceptionHelper_new_def)
  from s1 s2 s3 s4 s5 show ?thesis
    unfolding start by (meson rtranclp.rtrancl_into_rtrancl rtranclp.rtrancl_refl)
qed

lemma first_worker_gives_way:
  "interleave\<^sup>*\<^sup>*
     ([(Some (1::nat), Acquire), (Some 2, Release)], \<lparr>ex_ptr = Some 2, lock = True\<rparr>)
     ([(Some 1, Finished), (Some 2, Finished)], \<lparr>ex_ptr = Some 2, lock = False\<rparr>)"
proof -
  let ?set_held = "\<lparr>ex_ptr = Some (2::nat), lock = True\<rparr>"
  let ?set_free = "\<lparr>ex_ptr = Some (2::nat), lock = False\<rparr>"
  have s6: "interleave ([(Some 1, Acquire), (Some 2, Release)], ?set_held)
                       ([(Some 1, Acquire), (Some 2, Finished)], ?set_free)"
    using interleave.move [of 1 "[(Some 1, Acquire), (Some 2, Release)]"
        "Some (2::nat)" Release ?set_held Finished ?set_free]
    by simp
  have s7: "interleave ([(Some 1, Acquire), (Some 2, Finished)], ?set_free)
                       ([(Some 1, Test_locked), (Some 2, Finished)], ?set_held)"
    using interleave.move [of 0 "[(Some 1, Acquire), (Some 2, Finished)]"
        "Some (1::nat)" Acquire ?set_free Test_locked ?set_held]
    by simp
  have s8: "interleave ([(Some 1, Test_locked), (Some 2, Finished)], ?set_held)
                       ([(Some 1, Release), (Some 2, Finished)], ?set_held)"
    using interleave.move [of 0 "[(Some 1, Test_locked), (Some 2, Finished)]"
        "Some (1::nat)" Test_locked ?set_held Release ?set_held]
    by simp
  have s9: "interleave ([(Some 1, Release), (Some 2, Finished)], ?set_held)
                       ([(Some 1, Finished), (Some 2, Finished)], ?set_free)"
    using interleave.move [of 0 "[(Some 1, Release), (Some 2, Finished)]"
        "Some (1::nat)" Release ?set_held Finished ?set_free]
    by simp
  from s6 s7 s8 s9 show ?thesis
    by (meson rtranclp.rtrancl_into_rtrancl rtranclp.rtrancl_refl)
qed

text \<open>
  Claim C2. Once the slot of a helper holds a signal, every further call of
  \<^verbatim>\<open>CaptureException\<close>, alone or in a sequence, returns and leaves the helper as it
  is; a sequence of calls on a new helper ends with the first signal of the sequence in
  the slot (or with none, when no call had a signal in flight); and when the calls of
  the workers of a region interleave, a signal that has reached the slot is the one the
  slot holds from then on. The slot is one \<^verbatim>\<open>exception_ptr\<close>, so it never holds more
  than one signal.
\<close>

theorem CaptureException_first_wins:
  "(ex_ptr h = Some e \<longrightarrow>
      CaptureException cur h = Some h \<and> capture_all curs h = Some h)
   \<and> capture_all curs ThreadExceptionHelper_new
       = Some (ThreadExceptionHelper_new\<lparr>ex_ptr := first_signal curs\<rparr>)
   \<and> (interleave\<^sup>*\<^sup>* (region_start curs) c \<and> interleave\<^sup>*\<^sup>* c c'
        \<and> ex_ptr (snd c) = Some e \<longrightarrow> ex_ptr (snd c') = Some e)"
  using region_first_wins [of curs c c' e]
  by (simp add: CaptureException_held capture_all_held capture_all_empty
      ThreadExceptionHelper_new_def)

theorem CaptureException_first_wins_witness:
  "ex_ptr \<lparr>ex_ptr = Some (2::nat), lock = False\<rparr> = Some 2
   \<and> CaptureException (Some 3) \<lparr>ex_ptr = Some (2::nat), lock = False\<rparr>
       = Some \<lparr>ex_ptr = Some 2, lock = False\<rparr>
   \<and> capture_all [Some 1, Some 2] \<lparr>ex_ptr = Some (2::nat), lock = False\<rparr>
       = Some \<lparr>ex_ptr = Some 2, lock = False\<rparr>
   \<and> capture_all [Some (1::nat), Some 2] ThreadExceptionHelper_new
       = Some \<lparr>ex_ptr = Some 1, lock = False\<rparr>
   \<and> interleave\<^sup>*\<^sup>* (region_start [Some (1::nat), Some 2])
        ([(Some 1, Acquire), (Some 2, Release)], \<lparr>ex_ptr = Some 2, lock = True\<rparr>)
   \<and> interleave\<^sup>*\<^sup>*
        ([(Some (1::nat), Acquire), (Some 2, Release)], \<lparr>ex_ptr = Some 2, lock = True\<rparr>)
        ([(Some 1, Finished), (Some 2, Finished)], \<lparr>ex_ptr = Some 2, lock = False\<rparr>)
   \<and> ex_ptr (snd ([(Some (1::nat), Finished), (Some (2::nat), Finished)],
                  \<lparr>ex_ptr = Some (2::nat), lock = False\<rparr>)) = Some 2"
proof -
  let ?h = "\<lparr>ex_ptr = Some (2::nat), lock = False\<rparr>"
  let ?c = "([(Some (1::nat), Acquire), (Some 2, Release)], \<lparr>ex_ptr = Some 2, lock = True\<rparr>)"
  let ?c' = "([(Some (1::nat), Finished), (Some (2::nat), Finished)], ?h)"
  note t = CaptureException_first_wins [of ?h 2 "Some 3" "[Some 1, Some 2]" ?c ?c']
  have h: "ex_ptr ?h = Some 2" by simp
  from t h have a: "CaptureException (Some 3) ?h = Some ?h"
    and b: "capture_all [Some 1, Some 2] ?h = Some ?h"
    by blast+
  have "ThreadExceptionHelper_new\<lparr>ex_ptr := first_signal [Some (1::nat), Some 2]\<rparr>
          = \<lparr>ex_ptr = Some 1, lock = False\<rparr>"
    by (simp add: ThreadExceptionHelper_new_def)
  with t have c: "capture_all [Some (1::nat), Some 2] ThreadExceptionHelper_new
                    = Some \<lparr>ex_ptr = Some 1, lock = False\<rparr>"
    by metis
  have held: "ex_ptr (snd ?c) = Some 2" by simp
  from t second_worker_assigns first_worker_gives_way held
  have d: "ex_ptr (snd ?c') = Some 2" by blast
  from h a b c second_worker_assigns first_worker_gives_way d show ?thesis by blast
qed

section \<open>The branch without OpenMP\<close>

lemma seq_stmt_empty_left: "seq_stmt empty_stmt b = b"
  by (rule ext) (simp add: seq_stmt_def empty_stmt_def)

lemma seq_stmt_empty_right: "seq_stmt a empty_stmt = a"
  by (rule ext) (simp add: seq_stmt_def empty_stmt_def split: prod.splits outcome.splits)

text \<open>
  Claim C7. Without \<^verbatim>\<open>_OPENMP\<close> the queries \<^verbatim>\<open>omp_get_num_threads\<close>,
  \<^verbatim>\<open>omp_get_max_threads\<close> and \<^verbatim>\<open>OMP_NUM_THREADS\<close> return 1 and
  \<^verbatim>\<open>omp_get_thread_num\<close> returns 0; the two setters change nothing, whatever their
  argument; and the four macros expand to nothing: \<^verbatim>\<open>OMP_THROW_EX()\<close> raises
  nothing, and a loop body between \<^verbatim>\<open>OMP_LOOP_EX_BEGIN()\<close> and
  \<^verbatim>\<open>OMP_LOOP_EX_END()\<close>, after \<^verbatim>\<open>OMP_INIT_EX()\<close> and before
  \<^verbatim>\<open>OMP_THROW_EX()\<close>, behaves as the body alone does.
\<close>

theorem noomp_single_thread:
  "omp_get_num_threads_noomp = 1 \<and> omp_get_max_threads_noomp = 1
   \<and> OMP_NUM_THREADS_noomp = 1 \<and> omp_get_thread_num_noomp = 0
   \<and> omp_set_num_threads_noomp n s = s \<and> OMP_SET_NUM_THREADS_noomp n s = s
   \<and> OMP_THROW_EX_noomp s = (Returned, s)
   \<and> seq_stmt OMP_INIT_EX_noomp
        (seq_stmt (seq_stmt OMP_LOOP_EX_BEGIN_noomp (seq_stmt body OMP_LOOP_EX_END_noomp))
           OMP_THROW_EX_noomp) = body"
proof -
  have "seq_stmt OMP_INIT_EX_noomp
          (seq_stmt (seq_stmt OMP_LOOP_EX_BEGIN_noomp (seq_stmt body OMP_LOOP_EX_END_noomp))
             OMP_THROW_EX_noomp) = body"
    by (simp add: OMP_INIT_EX_noomp_def OMP_LOOP_EX_BEGIN_noomp_def
        OMP_LOOP_EX_END_noomp_def OMP_THROW_EX_noomp_def seq_stmt_empty_left
        seq_stmt_empty_right)
  moreover have "OMP_THROW_EX_noomp s = (Returned, s)"
    by (simp add: OMP_THROW_EX_noomp_def empty_stmt_def)
  ultimately show ?thesis
    by (simp add: omp_get_num_threads_noomp_def omp_get_max_threads_noomp_def
        OMP_NUM_THREADS_noomp_def omp_get_thread_num_noomp_def
        omp_set_num_threads_noomp_def OMP_SET_NUM_THREADS_noomp_def)
qed

end
